theory Spec2Isabelle
  imports Main "HOL-Library.Multiset"
begin

section \<open>Data model\<close>

text \<open>
  The queue controller of \<^verbatim>\<open>src/index.js\<close> is callback-driven JavaScript. It is embedded
  as functions that return the sequence of externally visible actions (an effect trace)
  an operation performs, in program order. The results of the external calls an
  operation waits for (the clock, \<^verbatim>\<open>job.persist\<close>, the caller-supplied execution function,
  \<^verbatim>\<open>fs.rename\<close>, \<^verbatim>\<open>job.destroy\<close>) are read from an environment record, so that every
  callback branch of the source is a branch of the model.

  Timestamps, delays and counters are JavaScript numbers holding integers; they are
  modelled as \<^typ>\<open>int\<close> (a due time is a numeric timestamp throughout, as in the data
  model of the spec). An error value is a truthy JavaScript value, modelled by its
  message. Triggering an event is an action like any other; what observers do with it is
  outside the model.
\<close>

datatype error = JsError string

text \<open>
  A Job Record as the controller sees it: \<^verbatim>\<open>job.id\<close>, \<^verbatim>\<open>job.data\<close>,
  \<^verbatim>\<open>job.options.scheduled\<close>, \<^verbatim>\<open>job.attempts\<close>, \<^verbatim>\<open>job.processing\<close>, \<^verbatim>\<open>job.directory\<close>
  and \<^verbatim>\<open>job.file\<close>.
\<close>

record job =
  job_id :: string
  data :: string
  scheduled :: int
  attempts :: int
  processing :: bool
  job_directory :: string
  job_file :: string

text \<open>The option table of the constructor (\<^verbatim>\<open>this.options\<close>).\<close>

record options =
  directory :: string
  autoStart :: bool
  concurrency :: nat
  reloadConcurrency :: nat
  delayEarlyJob :: int
  retryFailedJobs :: bool
  retryFailedJobDelay :: int
  destroySuccessfulJobs :: bool
  destroyFailedJobs :: bool
  moveSuccessfulJobs :: bool
  moveFailedJobs :: bool
  maxJobFailures :: int
  prettifyJSON :: bool

text \<open>The events relayed to observers by \<^verbatim>\<open>this.trigger\<close>.\<close>

datatype event =
    Ready
  | Pause
  | Resume
  | End
  | Saturated
  | Empty
  | Drain
  | JobQueue job
  | JobComplete job
  | JobFail job
  | JobError error "job option"
  | JobRetry job
  | JobDestroy job
  | Error error

text \<open>
  The actions of the controller on the outside world. An action that carries a job
  carries the record as it is at the moment of the call.
\<close>

datatype effect =
    Trigger event
  | Persist job
  | Invoke job
  | QueuePush job int
  | SetTimeout int
  | Complete "error option" "job option"
  | Rename string string
  | Destroy job
  | Callback "error option" "job option"
  | Throw error
  | Mkdirp string
  | QueueCreate nat
  | QueuePause
  | QueueResume
  | QueueKill

text \<open>
  What an operation reads from the outside: the clock (\<^verbatim>\<open>new Date().getTime()\<close>), the
  outcome of \<^verbatim>\<open>job.persist\<close> for the record written, the completion signals the
  caller-supplied execution function produces for the record (each call of its callback
  and a thrown exception, in the order they reach \<^verbatim>\<open>once\<close>), and the outcomes of
  \<^verbatim>\<open>fs.rename\<close> and \<^verbatim>\<open>job.destroy\<close>.
\<close>

record env =
  now :: int
  persist_result :: "job \<Rightarrow> error option"
  worker_result :: "job \<Rightarrow> error option list"
  rename_result :: "string \<Rightarrow> string \<Rightarrow> error option"
  destroy_result :: "job \<Rightarrow> error option"

section \<open>Operations of the controller\<close>

text \<open>
  \<^verbatim>\<open>path.join\<close> and \<^verbatim>\<open>path.resolve\<close> of Node for POSIX paths. Both normalise: the path is
  cut at the slashes, empty and \<^verbatim>\<open>.\<close> segments are dropped, a \<^verbatim>\<open>..\<close> segment removes the
  segment before it (and is kept in front of a relative path that has none), and the
  segments are put together again. \<^verbatim>\<open>join\<close> skips empty arguments, keeps a trailing slash
  and gives \<^verbatim>\<open>.\<close> for an empty relative result; \<^verbatim>\<open>resolve\<close> puts the working directory
  (an absolute path) in front of a relative path and keeps no trailing slash.
\<close>

fun split_path :: "string \<Rightarrow> string list" where
  "split_path [] = [[]]"
| "split_path (c # cs) =
     (if c = CHR ''/'' then [] # split_path cs
      else (case split_path cs of [] \<Rightarrow> [[c]] | seg # segs \<Rightarrow> (c # seg) # segs))"

fun normalize_parts :: "bool \<Rightarrow> string list \<Rightarrow> string list \<Rightarrow> string list" where
  "normalize_parts up acc [] = rev acc"
| "normalize_parts up acc (p # ps) =
     (if p = [] \<or> p = ''.'' then normalize_parts up acc ps
      else if p = ''..'' then
        (case acc of
           [] \<Rightarrow> normalize_parts up (if up then [p] else []) ps
         | a # as \<Rightarrow>
             if a = ''..'' then normalize_parts up (p # acc) ps
             else normalize_parts up as ps)
      else normalize_parts up (p # acc) ps)"

fun join_parts :: "string list \<Rightarrow> string" where
  "join_parts [] = []"
| "join_parts [p] = p"
| "join_parts (p # q # ps) = p @ ''/'' @ join_parts (q # ps)"

definition is_absolute :: "string \<Rightarrow> bool" where
  "is_absolute p = (case p of [] \<Rightarrow> False | c # cs \<Rightarrow> c = CHR ''/'')"

definition trailing_slash :: "string \<Rightarrow> bool" where
  "trailing_slash p = (case rev p of [] \<Rightarrow> False | c # cs \<Rightarrow> c = CHR ''/'')"

definition path_normalize :: "string \<Rightarrow> string" where
  "path_normalize p =
     (let body = join_parts (normalize_parts (\<not> is_absolute p) [] (split_path p));
          body1 = (if body = [] \<and> \<not> is_absolute p then ''.'' else body);
          body2 = (if body1 \<noteq> [] \<and> trailing_slash p then body1 @ ''/'' else body1)
      in if is_absolute p then CHR ''/'' # body2 else body2)"

definition path_join :: "string \<Rightarrow> string \<Rightarrow> string" where
  "path_join d f = path_normalize (join_parts (filter (\<lambda>p. p \<noteq> []) [d, f]))"

definition path_resolve :: "string \<Rightarrow> string \<Rightarrow> string" where
  "path_resolve cwd p =
     (let full = (if is_absolute p then p else join_parts (filter (\<lambda>q. q \<noteq> []) [cwd, p]))
      in CHR ''/'' # join_parts (normalize_parts False [] (split_path full)))"

text \<open>\<^verbatim>\<open>callback && callback(err, job)\<close>: the caller's callback is optional.\<close>

definition callback :: "bool \<Rightarrow> error option \<Rightarrow> job option \<Rightarrow> effect list" where
  "callback cb err j = (if cb then [Callback err j] else [])"

text \<open>
  \<^verbatim>\<open>KewKew.prototype._persist\<close>: write the record; a failure is triggered on the error
  channel before the continuation \<open>k\<close> sees it.
\<close>

definition persist :: "env \<Rightarrow> job \<Rightarrow> (error option \<Rightarrow> effect list) \<Rightarrow> effect list" where
  "persist e j k =
     Persist j #
     (case persist_result e j of
        Some err \<Rightarrow> Trigger (Error err) # k (Some err)
      | None \<Rightarrow> k None)"

text \<open>
  \<^verbatim>\<open>KewKew.prototype._enqueue\<close>: clear the processing flag, then push the record into the
  priority queue under its due time. \<open>enqueue_job\<close> is the record after the call.
\<close>

definition enqueue_job :: "job \<Rightarrow> job" where
  "enqueue_job j = j\<lparr>processing := False\<rparr>"

definition enqueue :: "job \<Rightarrow> effect list" where
  "enqueue j = [QueuePush (enqueue_job j) (scheduled (enqueue_job j))]"

text \<open>
  The \<^verbatim>\<open>once\<close> guard of the worker: the first completion signal is forwarded to the
  queue's callback, every later one is reported as an error.
\<close>

fun once :: "(error option \<times> job option) list \<Rightarrow> effect list" where
  "once [] = []"
| "once ((err, j) # rest) =
     Complete err j #
     map (\<lambda>_. Trigger (Error (JsError ''worker callback called twice''))) rest"

text \<open>
  \<^verbatim>\<open>KewKew.prototype._worker\<close>: read the clock, set the processing flag, and then either
  count the attempt, persist and hand the record to the execution function, or (when the
  due time is still ahead) set a timer. \<open>early_timer\<close> is the timer's callback: it
  enqueues the record again and completes with neither an error nor a record.
\<close>

definition early_timer :: "job \<Rightarrow> effect list" where
  "early_timer j = enqueue j @ once [(None, None)]"

definition worker :: "options \<Rightarrow> env \<Rightarrow> job \<Rightarrow> effect list" where
  "worker opts e j =
     (let timestamp = now e; j1 = j\<lparr>processing := True\<rparr>
      in if scheduled j1 \<le> timestamp then
           (let j2 = j1\<lparr>attempts := attempts j1 + 1\<rparr>
            in persist e j2 (\<lambda>err.
                 case err of
                   Some x \<Rightarrow> once [(Some x, Some j2)]
                 | None \<Rightarrow> Invoke j2 # once (map (\<lambda>r. (r, Some j2)) (worker_result e j2))))
         else
           SetTimeout (delayEarlyJob opts) # early_timer j1)"

text \<open>
  \<^verbatim>\<open>KewKew.prototype._destroy\<close>: delete the record's file. The failure branch of the
  source refers to \<^verbatim>\<open>_this\<close>, which this function never declares, so a failed deletion
  ends in a ReferenceError before the continuation is called.
\<close>

definition destroy :: "env \<Rightarrow> job \<Rightarrow> (error option \<Rightarrow> effect list) \<Rightarrow> effect list" where
  "destroy e j k =
     Destroy j #
     (case destroy_result e j of
        Some err \<Rightarrow> [Throw (JsError ''_this is not defined'')]
      | None \<Rightarrow> k None)"

text \<open>
  \<^verbatim>\<open>KewKew.prototype.retry\<close>: only a record whose processing flag is set is rescheduled;
  the retry delay is added to its due time, it is persisted and, when that succeeded,
  enqueued. Any other record makes the call throw.
\<close>

definition retry_job :: "options \<Rightarrow> job \<Rightarrow> job" where
  "retry_job opts j = j\<lparr>scheduled := scheduled j + retryFailedJobDelay opts\<rparr>"

definition retry :: "options \<Rightarrow> env \<Rightarrow> job \<Rightarrow> bool \<Rightarrow> effect list" where
  "retry opts e j cb =
     (if processing j then
        (let j1 = retry_job opts j
         in persist e j1 (\<lambda>err.
              case err of
                Some x \<Rightarrow>
                  [Trigger (JobError x (Some j1)), Trigger (Error x)] @ callback cb (Some x) None
              | None \<Rightarrow>
                  enqueue j1 @
                  [Trigger (JobRetry (enqueue_job j1)), Trigger (JobQueue (enqueue_job j1))] @
                  callback cb None None))
      else [Throw (JsError ''Cannot retry job because it is unprocessed'')])"

text \<open>The two finalisations of \<^verbatim>\<open>_onJobComplete\<close>: rename to a marker name, or delete.\<close>

definition move_job :: "env \<Rightarrow> job \<Rightarrow> string \<Rightarrow> effect list" where
  "move_job e j marker =
     (let target = path_join (job_directory j) (marker @ job_id j)
      in Rename (job_file j) target #
         (case rename_result e (job_file j) target of
            Some err \<Rightarrow> [Trigger (Error err)]
          | None \<Rightarrow> []))"

definition destroy_job :: "env \<Rightarrow> job \<Rightarrow> effect list" where
  "destroy_job e j =
     destroy e j (\<lambda>err. case err of None \<Rightarrow> [Trigger (JobDestroy j)] | Some x \<Rightarrow> [])"

text \<open>
  \<^verbatim>\<open>KewKew.prototype._onJobComplete\<close>, the callback the queue calls with what the worker
  passed to its own callback. With an error and no record, the source reads a field of
  \<^verbatim>\<open>null\<close> as soon as retrying is enabled.
\<close>

definition onJobComplete :: "options \<Rightarrow> env \<Rightarrow> error option \<Rightarrow> job option \<Rightarrow> effect list" where
  "onJobComplete opts e err job =
     (case err of
        Some x \<Rightarrow>
          [Trigger (JobError x job), Trigger (Error x)] @
          (if retryFailedJobs opts then
             (case job of
                None \<Rightarrow> [Throw (JsError ''Cannot read property of null'')]
              | Some j \<Rightarrow>
                  if maxJobFailures opts \<le> 0 \<or> attempts j < maxJobFailures opts then
                    retry opts e j False
                  else
                    Trigger (JobFail j) #
                    (if moveFailedJobs opts then move_job e j ''.failed-''
                     else if destroyFailedJobs opts then destroy_job e j
                     else []))
           else [])
      | None \<Rightarrow>
          (case job of
             None \<Rightarrow> []
           | Some j \<Rightarrow>
               Trigger (JobComplete j) #
               (if moveSuccessfulJobs opts then move_job e j ''.success-''
                else if destroySuccessfulJobs opts then destroy_job e j
                else [])))"

text \<open>
  One dispatch as the queue runs it: the worker's actions, with the completion callback
  (which the queue bound to \<^verbatim>\<open>_onJobComplete\<close> when the record was pushed) run at the
  point where the worker calls it.
\<close>

fun completion :: "options \<Rightarrow> env \<Rightarrow> effect \<Rightarrow> effect list" where
  "completion opts e (Complete err j) = Complete err j # onJobComplete opts e err j"
| "completion opts e x = [x]"

definition dispatch :: "options \<Rightarrow> env \<Rightarrow> job \<Rightarrow> effect list" where
  "dispatch opts e j = concat (map (completion opts e) (worker opts e j))"

text \<open>
  Modelled from the spec: the constructor of \<^verbatim>\<open>lib/job.js\<close>, which is not among the
  sources. A new record has made no attempt, is not processing, and its file is named by
  its id inside the queue directory. The id the constructor draws is a parameter.
\<close>

definition new_Job :: "string \<Rightarrow> string \<Rightarrow> int \<Rightarrow> string \<Rightarrow> job" where
  "new_Job jid payload due dir =
     \<lparr>job_id = jid, data = payload, scheduled = due, attempts = 0, processing = False,
      job_directory = dir, job_file = path_join dir jid\<rparr>"

text \<open>
  \<^verbatim>\<open>KewKew.prototype.push\<close>. \<open>due\<close> is \<^verbatim>\<open>options.scheduled\<close> as the caller gave it;
  \<^verbatim>\<open>options.scheduled || currentDate\<close> takes the default for a missing and for a falsy
  (zero) value.
\<close>

definition push_due :: "int \<Rightarrow> int option \<Rightarrow> int" where
  "push_due timestamp due =
     (let currentDate = timestamp + 10000
      in case due of
           None \<Rightarrow> currentDate
         | Some d \<Rightarrow> if d = 0 then currentDate else d)"

definition push :: "options \<Rightarrow> env \<Rightarrow> string \<Rightarrow> string \<Rightarrow> int option \<Rightarrow> bool \<Rightarrow> effect list" where
  "push opts e jid payload due cb =
     (let job = new_Job jid payload (push_due (now e) due) (directory opts)
      in persist e job (\<lambda>err.
           case err of
             Some x \<Rightarrow> callback cb (Some x) None
           | None \<Rightarrow>
               enqueue job @ [Trigger (JobQueue (enqueue_job job))] @
               callback cb None (Some (enqueue_job job))))"

text \<open>
  Modelled from the spec: \<^verbatim>\<open>helpers.filterDotFiles\<close> of \<^verbatim>\<open>lib/helpers.js\<close>, which is not
  among the sources. Directory entries that begin with the hidden-file marker are never
  active job records.
\<close>

fun dotFile :: "string \<Rightarrow> bool" where
  "dotFile [] = False"
| "dotFile (c # cs) = (c = CHR ''.'')"

definition filterDotFiles :: "string list \<Rightarrow> string list" where
  "filterDotFiles files = filter (\<lambda>f. \<not> dotFile f) files"

text \<open>
  \<^verbatim>\<open>async.parallelLimit\<close>: the results of all tasks in task order, or the error of the
  first task that fails, in which case no result is passed on. The model lets tasks
  finish in task order.
\<close>

fun parallelLimit :: "(error + 'a) list \<Rightarrow> error + 'a list" where
  "parallelLimit [] = Inr []"
| "parallelLimit (Inl err # ts) = Inl err"
| "parallelLimit (Inr x # ts) =
     (case parallelLimit ts of Inl err \<Rightarrow> Inl err | Inr xs \<Rightarrow> Inr (x # xs))"

text \<open>
  \<^verbatim>\<open>KewKew.prototype._reload\<close>. \<open>readdir\<close> is the outcome of \<^verbatim>\<open>fs.readdir\<close> on the queue
  directory and \<open>fromDisk\<close> the outcome of \<^verbatim>\<open>Job.fromDisk\<close> on a path.
\<close>

definition reload ::
  "options \<Rightarrow> (error + string list) \<Rightarrow> (string \<Rightarrow> error + job) \<Rightarrow>
   (error option \<Rightarrow> effect list) \<Rightarrow> effect list" where
  "reload opts readdir fromDisk k =
     (case readdir of
        Inl err \<Rightarrow> k (Some err)
      | Inr files \<Rightarrow>
          (case parallelLimit
                  (map (\<lambda>f. fromDisk (path_join (directory opts) f)) (filterDotFiles files)) of
             Inl err \<Rightarrow> k (Some err)
           | Inr jobs \<Rightarrow> concat (map enqueue jobs) @ k None))"

text \<open>
  \<^verbatim>\<open>KewKew.prototype._init\<close> with \<^verbatim>\<open>_initDataDirectory\<close> and \<^verbatim>\<open>_initQueue\<close>: the queue is
  created paused; \<open>recovered\<close> is the reload with the callback \<^verbatim>\<open>_init\<close> gives it, which
  runs when the directory has been read: it resumes the queue after a recovery without
  error when \<open>autoStart\<close> is set.
\<close>

definition recovered ::
  "options \<Rightarrow> (error + string list) \<Rightarrow> (string \<Rightarrow> error + job) \<Rightarrow> effect list" where
  "recovered opts readdir fromDisk =
     reload opts readdir fromDisk (\<lambda>err.
       case err of
         Some x \<Rightarrow> [Trigger (Error x)]
       | None \<Rightarrow> Trigger Ready # (if autoStart opts then [QueueResume] else []))"

definition init ::
  "options \<Rightarrow> (error + string list) \<Rightarrow> (string \<Rightarrow> error + job) \<Rightarrow> effect list" where
  "init opts readdir fromDisk =
     [Mkdirp (directory opts), QueueCreate (concurrency opts), QueuePause] @
     recovered opts readdir fromDisk"

text \<open>
  \<^verbatim>\<open>KewKew.prototype.pause\<close> and \<^verbatim>\<open>resume\<close>, given the queue's \<^verbatim>\<open>paused\<close> flag: the queue
  is touched and the event fires only on a change of state.
\<close>

definition pause :: "bool \<Rightarrow> effect list" where
  "pause is_paused = (if \<not> is_paused then [QueuePause, Trigger Pause] else [])"

definition resume :: "bool \<Rightarrow> effect list" where
  "resume is_paused = (if is_paused then [QueueResume, Trigger Resume] else [])"

section \<open>The scheduler and the job objects\<close>

text \<open>
  Job records are JavaScript objects: the queue, the timers and the callers hold
  references to them, and \<^verbatim>\<open>_worker\<close>, \<^verbatim>\<open>_enqueue\<close> and \<^verbatim>\<open>retry\<close> assign to their fields.
  The state below keeps the objects in a store addressed by reference.

  Modelled from the spec: the priority queue behind \<^verbatim>\<open>this._queue\<close> is the async
  library's, which is not among the sources. It holds the pending entries ordered by due
  time with ties in insertion order, idles while it is paused, while no slot is free or
  while nothing is pending, and otherwise hands the first entry to the worker; a slot is
  freed when the worker calls back. \<open>started\<close> logs the dispatches.
\<close>

type_synonym ref = nat

record scheduler =
  heap :: "ref \<Rightarrow> job"
  tasks :: "(ref \<times> int) list"
  paused :: bool
  workers :: nat
  started :: "ref list"

definition queue_push :: "ref \<times> int \<Rightarrow> (ref \<times> int) list \<Rightarrow> (ref \<times> int) list" where
  "queue_push x ts =
     takeWhile (\<lambda>y. snd y \<le> snd x) ts @ x # dropWhile (\<lambda>y. snd y \<le> snd x) ts"

text \<open>
  What one action of an operation on the object at \<open>r\<close> does to this state: an action
  that carries the record leaves the object as the record shows it, a push adds an
  entry for the object, the worker's completion frees a slot.
\<close>

fun absorb :: "ref \<Rightarrow> effect \<Rightarrow> scheduler \<Rightarrow> scheduler" where
  "absorb r (QueuePush j p) s = s\<lparr>heap := (heap s)(r := j), tasks := queue_push (r, p) (tasks s)\<rparr>"
| "absorb r (Persist j) s = s\<lparr>heap := (heap s)(r := j)\<rparr>"
| "absorb r (Invoke j) s = s\<lparr>heap := (heap s)(r := j)\<rparr>"
| "absorb r (Complete err j) s = s\<lparr>workers := workers s - 1\<rparr>"
| "absorb r QueuePause s = s\<lparr>paused := True\<rparr>"
| "absorb r QueueResume s = s\<lparr>paused := False\<rparr>"
| "absorb r x s = s"

definition absorbs :: "ref \<Rightarrow> effect list \<Rightarrow> scheduler \<Rightarrow> scheduler" where
  "absorbs r tr s = fold (absorb r) tr s"

text \<open>
  The same for a trace that pushes records read back from disk: every record it pushes
  is an object of its own, stored at the next reference from \<open>r\<close> on.
\<close>

fun absorbs_new :: "ref \<Rightarrow> effect list \<Rightarrow> scheduler \<Rightarrow> scheduler" where
  "absorbs_new r [] s = s"
| "absorbs_new r (QueuePush j p # tr) s = absorbs_new (Suc r) tr (absorb r (QueuePush j p) s)"
| "absorbs_new r (x # tr) s = absorbs_new r tr (absorb r x s)"

text \<open>
  The synchronous part of \<^verbatim>\<open>_worker\<close> on the object: the flag is set before the due time
  is looked at, the counter moves only when the record is due.
\<close>

definition worker_job :: "int \<Rightarrow> job \<Rightarrow> job" where
  "worker_job timestamp j =
     (let j1 = j\<lparr>processing := True\<rparr>
      in if scheduled j1 \<le> timestamp then j1\<lparr>attempts := attempts j1 + 1\<rparr> else j1)"

text \<open>The queue's dispatch: idle, or pop the first entry and enter the worker.\<close>

definition process :: "options \<Rightarrow> int \<Rightarrow> scheduler \<Rightarrow> scheduler" where
  "process opts timestamp s =
     (if paused s \<or> concurrency opts \<le> workers s then s
      else case tasks s of
             [] \<Rightarrow> s
           | (r, p) # ts \<Rightarrow>
               s\<lparr>heap := (heap s)(r := worker_job timestamp (heap s r)), tasks := ts,
                 workers := Suc (workers s), started := started s @ [r]\<rparr>)"

text \<open>
  The callbacks that run one at a time on the event loop: the queue's dispatch, the
  backoff timer of an early record, the completion signals of an execution, the
  caller's \<^verbatim>\<open>retry\<close>, \<^verbatim>\<open>push\<close>, \<^verbatim>\<open>pause\<close> and \<^verbatim>\<open>resume\<close>, and the end of the recovery the
  constructor started (with the first free reference, the directory listing and the
  outcome of reading each file).
\<close>

datatype activity =
    Process
  | Timer ref
  | Done ref "error option list"
  | Retry ref bool
  | Push ref string string "int option" bool
  | PauseCall
  | ResumeCall
  | Recovered ref "error + string list" "string \<Rightarrow> error + job"

fun step :: "options \<Rightarrow> env \<Rightarrow> activity \<Rightarrow> scheduler \<Rightarrow> scheduler" where
  "step opts e Process s = process opts (now e) s"
| "step opts e (Timer r) s = absorbs r (early_timer (heap s r)) s"
| "step opts e (Done r signals) s =
     absorbs r
       (concat (map (completion opts e) (once (map (\<lambda>x. (x, Some (heap s r))) signals)))) s"
| "step opts e (Retry r cb) s = absorbs r (retry opts e (heap s r) cb) s"
| "step opts e (Push r jid payload due cb) s = absorbs r (push opts e jid payload due cb) s"
| "step opts e PauseCall s = absorbs 0 (pause (paused s)) s"
| "step opts e ResumeCall s = absorbs 0 (resume (paused s)) s"
| "step opts e (Recovered r readdir fromDisk) s =
     absorbs_new r (recovered opts readdir fromDisk) s"



fun run :: "options \<Rightarrow> (env \<times> activity) list \<Rightarrow> scheduler \<Rightarrow> scheduler" where
  "run opts [] s = s"
| "run opts ((e, a) # rest) s = run opts rest (step opts e a s)"



text \<open>The pending entries whose record has the processing flag set.\<close>

definition pending_processing :: "scheduler \<Rightarrow> (ref \<times> int) list" where
  "pending_processing s = filter (\<lambda>x. processing (heap s (fst x))) (tasks s)"

text \<open>
  A trace is safe for the flag of the object it acts on, given whether the object may
  carry a set flag at its start (\<open>b\<close>): every record it pushes has the flag cleared,
  and a record it writes or hands on has the flag set only if \<open>b\<close> holds and nothing
  has been pushed before.
\<close>

fun flags_ok :: "bool \<Rightarrow> effect list \<Rightarrow> bool" where
  "flags_ok b [] = True"
| "flags_ok b (QueuePush j p # tr) = (\<not> processing j \<and> flags_ok False tr)"
| "flags_ok b (Persist j # tr) = ((processing j \<longrightarrow> b) \<and> flags_ok b tr)"
| "flags_ok b (Invoke j # tr) = ((processing j \<longrightarrow> b) \<and> flags_ok b tr)"
| "flags_ok b (x # tr) = flags_ok b tr"

section \<open>Reading a trace\<close>

text \<open>
  The records pushed into the queue, handed to the execution function and written to
  disk by a trace, the completions it reports to the queue, and its finalisations (the
  permanent-failure event, renames and deletions).
\<close>

fun pushed :: "effect list \<Rightarrow> (job \<times> int) list" where
  "pushed [] = []"
| "pushed (QueuePush j p # tr) = (j, p) # pushed tr"
| "pushed (x # tr) = pushed tr"

fun invoked :: "effect list \<Rightarrow> job list" where
  "invoked [] = []"
| "invoked (Invoke j # tr) = j # invoked tr"
| "invoked (x # tr) = invoked tr"

fun persisted :: "effect list \<Rightarrow> job list" where
  "persisted [] = []"
| "persisted (Persist j # tr) = j # persisted tr"
| "persisted (x # tr) = persisted tr"

fun completions :: "effect list \<Rightarrow> (error option \<times> job option) list" where
  "completions [] = []"
| "completions (Complete err j # tr) = (err, j) # completions tr"
| "completions (x # tr) = completions tr"

fun finalised :: "effect list \<Rightarrow> effect list" where
  "finalised [] = []"
| "finalised (Trigger (JobFail j) # tr) = Trigger (JobFail j) # finalised tr"
| "finalised (Rename a b # tr) = Rename a b # finalised tr"
| "finalised (Destroy j # tr) = Destroy j # finalised tr"
| "finalised (x # tr) = finalised tr"

text \<open>Every record a trace pushes has the flag cleared and is pushed under its due time.\<close>

definition pushes_unflagged :: "effect list \<Rightarrow> bool" where
  "pushes_unflagged tr = list_all (\<lambda>x. \<not> processing (fst x) \<and> snd x = scheduled (fst x)) (pushed tr)"

text \<open>
  The course of a record through its attempts: \<open>Attempt n\<close> when the execution function
  is invoked on a record whose counter reads \<open>n\<close>, \<open>Retried\<close> and \<open>Failed\<close> for the
  retry and permanent-failure events.
\<close>

datatype mark = Attempt int | Retried | Failed

fun marks :: "effect list \<Rightarrow> mark list" where
  "marks [] = []"
| "marks (Invoke j # tr) = Attempt (attempts j) # marks tr"
| "marks (Trigger (JobRetry j) # tr) = Retried # marks tr"
| "marks (Trigger (JobFail j) # tr) = Failed # marks tr"
| "marks (x # tr) = marks tr"


section \<open>The constructor's option table\<close>

text \<open>The defaults of the constructor; \<open>name\<close> is the generated queue name.\<close>

definition default_options :: "string \<Rightarrow> options" where
  "default_options name =
     \<lparr>directory = path_join ''.'' name, autoStart = True, concurrency = 4,
      reloadConcurrency = 16, delayEarlyJob = 1000, retryFailedJobs = False,
      retryFailedJobDelay = 15000, destroySuccessfulJobs = False,
      destroyFailedJobs = False, moveSuccessfulJobs = True, moveFailedJobs = True,
      maxJobFailures = 3, prettifyJSON = False\<rparr>"

text \<open>The options object a caller passes: every key may be absent.\<close>

record overrides =
  o_directory :: "string option"
  o_autoStart :: "bool option"
  o_concurrency :: "nat option"
  o_reloadConcurrency :: "nat option"
  o_delayEarlyJob :: "int option"
  o_retryFailedJobs :: "bool option"
  o_retryFailedJobDelay :: "int option"
  o_destroySuccessfulJobs :: "bool option"
  o_destroyFailedJobs :: "bool option"
  o_moveSuccessfulJobs :: "bool option"
  o_moveFailedJobs :: "bool option"
  o_maxJobFailures :: "int option"
  o_prettifyJSON :: "bool option"

text \<open>
  Modelled from the spec: \<^verbatim>\<open>helpers.applyOptions\<close> of \<^verbatim>\<open>lib/helpers.js\<close>, which is not
  among the sources. Every key the caller gave replaces the default.
\<close>

definition pick :: "'a \<Rightarrow> 'a option \<Rightarrow> 'a" where
  "pick d v = (case v of None \<Rightarrow> d | Some x \<Rightarrow> x)"

definition applyOptions :: "options \<Rightarrow> overrides \<Rightarrow> options" where
  "applyOptions d ov =
     \<lparr>directory = pick (directory d) (o_directory ov),
      autoStart = pick (autoStart d) (o_autoStart ov),
      concurrency = pick (concurrency d) (o_concurrency ov),
      reloadConcurrency = pick (reloadConcurrency d) (o_reloadConcurrency ov),
      delayEarlyJob = pick (delayEarlyJob d) (o_delayEarlyJob ov),
      retryFailedJobs = pick (retryFailedJobs d) (o_retryFailedJobs ov),
      retryFailedJobDelay = pick (retryFailedJobDelay d) (o_retryFailedJobDelay ov),
      destroySuccessfulJobs = pick (destroySuccessfulJobs d) (o_destroySuccessfulJobs ov),
      destroyFailedJobs = pick (destroyFailedJobs d) (o_destroyFailedJobs ov),
      moveSuccessfulJobs = pick (moveSuccessfulJobs d) (o_moveSuccessfulJobs ov),
      moveFailedJobs = pick (moveFailedJobs d) (o_moveFailedJobs ov),
      maxJobFailures = pick (maxJobFailures d) (o_maxJobFailures ov),
      prettifyJSON = pick (prettifyJSON d) (o_prettifyJSON ov)\<rparr>"

text \<open>
  The constructor \<^verbatim>\<open>KewKew(worker, options)\<close> up to \<^verbatim>\<open>_init\<close>: asking for destruction
  switches the matching move option off in the caller's object before the defaults are
  overridden, and the directory is resolved against the working directory \<open>cwd\<close> of the
  process.
\<close>

definition KewKew_options :: "string \<Rightarrow> string \<Rightarrow> overrides option \<Rightarrow> options" where
  "KewKew_options cwd name ov =
     (let applied =
        (case ov of
           None \<Rightarrow> default_options name
         | Some v \<Rightarrow>
             (let v1 = (if o_destroySuccessfulJobs v = Some True
                        then v\<lparr>o_moveSuccessfulJobs := Some False\<rparr> else v);
                  v2 = (if o_destroyFailedJobs v1 = Some True
                        then v1\<lparr>o_moveFailedJobs := Some False\<rparr> else v1)
              in applyOptions (default_options name) v2))
      in applied\<lparr>directory := path_resolve cwd (directory applied)\<rparr>)"

text \<open>An options object with no key set.\<close>

definition no_overrides :: overrides where
  "no_overrides =
     \<lparr>o_directory = None, o_autoStart = None, o_concurrency = None,
      o_reloadConcurrency = None, o_delayEarlyJob = None, o_retryFailedJobs = None,
      o_retryFailedJobDelay = None, o_destroySuccessfulJobs = None,
      o_destroyFailedJobs = None, o_moveSuccessfulJobs = None, o_moveFailedJobs = None,
      o_maxJobFailures = None, o_prettifyJSON = None\<rparr>"

section \<open>Sample inputs\<close>

text \<open>
  A queue named \<open>q\<close> made in the working directory \<open>/var\<close> without options, and one
  with retrying enabled under a budget of \<open>n\<close> failures; an environment in which the
  clock reads \<open>t\<close>, every write, rename and deletion succeeds and the execution
  function reports \<open>r\<close> once, and one in which every write, rename and deletion fails;
  a queue directory in which only the file of record \<open>a1\<close> can be read back; a
  scheduler with nothing pending and nothing running; and a record of that queue due at
  \<open>d\<close> after \<open>n\<close> attempts.
\<close>

definition sample_options :: options where
  "sample_options = KewKew_options ''/var'' ''q'' None"

definition retrying_options :: "int \<Rightarrow> options" where
  "retrying_options n =
     KewKew_options ''/var'' ''q''
       (Some (no_overrides\<lparr>o_retryFailedJobs := Some True, o_maxJobFailures := Some n\<rparr>))"

definition sample_env :: "int \<Rightarrow> error option \<Rightarrow> env" where
  "sample_env t r =
     \<lparr>now = t, persist_result = (\<lambda>j. None), worker_result = (\<lambda>j. [r]),
      rename_result = (\<lambda>a b. None), destroy_result = (\<lambda>j. None)\<rparr>"

definition failing_disk :: "int \<Rightarrow> error \<Rightarrow> env" where
  "failing_disk t x =
     \<lparr>now = t, persist_result = (\<lambda>j. Some x), worker_result = (\<lambda>j. [None]),
      rename_result = (\<lambda>a b. Some x), destroy_result = (\<lambda>j. Some x)\<rparr>"

definition sample_disk :: "string \<Rightarrow> error + job" where
  "sample_disk f =
     (if f = ''/var/q/a1'' then Inr (new_Job ''a1'' ''payload'' 50 ''/var/q'')
      else Inl (JsError ''Unexpected token''))"

definition idle_scheduler :: scheduler where
  "idle_scheduler =
     \<lparr>heap = (\<lambda>r. new_Job ''a1'' ''payload'' 0 ''/var/q''), tasks = [], paused = False,
      workers = 0, started = []\<rparr>"

definition sample_job :: "int \<Rightarrow> int \<Rightarrow> bool \<Rightarrow> job" where
  "sample_job d n p =
     \<lparr>job_id = ''a1'', data = ''payload'', scheduled = d, attempts = n, processing = p,
      job_directory = ''/var/q'', job_file = ''/var/q/a1''\<rparr>"

section \<open>Facts about the sample inputs\<close>

lemma sample_paths:
  "path_join ''.'' ''q'' = ''q''"
  "path_resolve ''/var'' ''q'' = ''/var/q''"
  "path_join ''/var/q'' ''a1'' = ''/var/q/a1''"
  "path_join ''/var/q'' ''c3'' = ''/var/q/c3''"
  "path_join ''/var/q'' ''.failed-a1'' = ''/var/q/.failed-a1''"
  by (simp_all add: path_join_def path_resolve_def path_normalize_def is_absolute_def
      trailing_slash_def Let_def)

lemma sample_options_eq:
  "sample_options =
     \<lparr>directory = ''/var/q'', autoStart = True, concurrency = 4, reloadConcurrency = 16,
      delayEarlyJob = 1000, retryFailedJobs = False, retryFailedJobDelay = 15000,
      destroySuccessfulJobs = False, destroyFailedJobs = False, moveSuccessfulJobs = True,
      moveFailedJobs = True, maxJobFailures = 3, prettifyJSON = False\<rparr>"
  by (simp add: sample_options_def KewKew_options_def default_options_def sample_paths)

lemma retrying_options_eq:
  "retrying_options n =
     \<lparr>directory = ''/var/q'', autoStart = True, concurrency = 4, reloadConcurrency = 16,
      delayEarlyJob = 1000, retryFailedJobs = True, retryFailedJobDelay = 15000,
      destroySuccessfulJobs = False, destroyFailedJobs = False, moveSuccessfulJobs = True,
      moveFailedJobs = True, maxJobFailures = n, prettifyJSON = False\<rparr>"
  by (simp add: retrying_options_def KewKew_options_def applyOptions_def pick_def
      no_overrides_def default_options_def sample_paths Let_def)

lemma sample_new_Job:
  "new_Job ''a1'' ''payload'' d ''/var/q'' = sample_job d 0 False"
  by (simp add: new_Job_def sample_job_def sample_paths)

section \<open>Facts about traces\<close>

lemma pushed_append: "pushed (a @ b) = pushed a @ pushed b"
  by (induction a rule: pushed.induct) simp_all

lemma persisted_append: "persisted (a @ b) = persisted a @ persisted b"
  by (induction a rule: persisted.induct) simp_all

lemma called_twice_quiet:
  "pushed (map (\<lambda>_. Trigger ev) xs) = [] \<and> invoked (map (\<lambda>_. Trigger ev) xs) = [] \<and>
   persisted (map (\<lambda>_. Trigger ev) xs) = [] \<and> completions (map (\<lambda>_. Trigger ev) xs) = []"
  by (induction xs) simp_all

lemma once_quiet: "pushed (once cs) = [] \<and> invoked (once cs) = [] \<and> persisted (once cs) = []"
  by (cases cs rule: once.cases) (simp_all add: called_twice_quiet)

lemma invoked_append: "invoked (a @ b) = invoked a @ invoked b"
  by (induction a rule: invoked.induct) simp_all



lemma move_job_quiet:
  "pushed (move_job e j m) = [] \<and> persisted (move_job e j m) = [] \<and> marks (move_job e j m) = []"
  by (simp add: move_job_def Let_def split: option.split)

lemma destroy_job_quiet:
  "pushed (destroy_job e j) = [] \<and> persisted (destroy_job e j) = [] \<and> marks (destroy_job e j) = []"
  by (simp add: destroy_job_def destroy_def split: option.split)

lemma retry_trace:
  assumes "processing j"
  shows "retry opts e j cb =
     Persist (retry_job opts j) #
     (case persist_result e (retry_job opts j) of
        Some x \<Rightarrow>
          [Trigger (Error x), Trigger (JobError x (Some (retry_job opts j))), Trigger (Error x)] @
          callback cb (Some x) None
      | None \<Rightarrow>
          [QueuePush (enqueue_job (retry_job opts j)) (scheduled j + retryFailedJobDelay opts),
           Trigger (JobRetry (enqueue_job (retry_job opts j))),
           Trigger (JobQueue (enqueue_job (retry_job opts j)))] @
          callback cb None None)"
  using assms
  by (simp add: retry_def persist_def Let_def enqueue_def enqueue_job_def retry_job_def
      split: option.split)

lemma callback_quiet:
  "pushed (callback cb x y) = [] \<and> persisted (callback cb x y) = [] \<and> marks (callback cb x y) = []"
  by (simp add: callback_def)

lemma retry_pushed:
  assumes "processing j"
  shows "pushed (retry opts e j cb) =
     (case persist_result e (retry_job opts j) of
        Some x \<Rightarrow> []
      | None \<Rightarrow> [(enqueue_job (retry_job opts j), scheduled j + retryFailedJobDelay opts)])"
  by (simp add: retry_trace [OF assms] pushed_append callback_quiet split: option.split)

lemma retry_persisted:
  assumes "processing j"
  shows "persisted (retry opts e j cb) = [retry_job opts j]"
  by (simp add: retry_trace [OF assms] persisted_append callback_quiet split: option.split)









lemma move_job_finalised:
  "finalised (move_job e j m) = [Rename (job_file j) (path_join (job_directory j) (m @ job_id j))]"
  by (simp add: move_job_def Let_def split: option.split)

lemma destroy_job_finalised: "finalised (destroy_job e j) = [Destroy j]"
  by (simp add: destroy_job_def destroy_def split: option.split)

lemma destroy_switches_move_off:
  assumes "o_destroyFailedJobs v = Some True"
  shows "\<not> moveFailedJobs (KewKew_options cwd name (Some v)) \<and>
         destroyFailedJobs (KewKew_options cwd name (Some v))"
  using assms by (simp add: KewKew_options_def applyOptions_def pick_def Let_def)

lemma move_is_the_default:
  assumes "o_moveFailedJobs v = None" "o_destroyFailedJobs v \<noteq> Some True"
  shows "moveFailedJobs (KewKew_options cwd name (Some v))"
  using assms
  by (simp add: KewKew_options_def applyOptions_def pick_def default_options_def Let_def)

lemma parallelLimit_fails:
  assumes "Inl x \<in> set ts"
  shows "\<exists>y. parallelLimit ts = Inl y \<and> Inl y \<in> set ts"
  using assms
proof (induction ts rule: parallelLimit.induct)
  case 1
  then show ?case by simp
next
  case (2 err ts)
  then show ?case by simp
next
  case (3 v ts)
  then have "Inl x \<in> set ts" by auto
  with 3 obtain y where "parallelLimit ts = Inl y" "Inl y \<in> set ts" by blast
  then show ?case by simp
qed

lemma new_Job_enqueued: "enqueue_job (new_Job jid payload due dir) = new_Job jid payload due dir"
  by (simp add: enqueue_job_def new_Job_def)

lemma push_trace:
  "push opts e jid payload due cb =
     Persist (new_Job jid payload (push_due (now e) due) (directory opts)) #
     (case persist_result e (new_Job jid payload (push_due (now e) due) (directory opts)) of
        Some x \<Rightarrow> Trigger (Error x) # callback cb (Some x) None
      | None \<Rightarrow>
          [QueuePush (new_Job jid payload (push_due (now e) due) (directory opts))
             (push_due (now e) due),
           Trigger (JobQueue (new_Job jid payload (push_due (now e) due) (directory opts)))] @
          callback cb None (Some (new_Job jid payload (push_due (now e) due) (directory opts))))"
  by (simp add: push_def persist_def enqueue_def new_Job_enqueued Let_def split: option.split)
    (simp add: new_Job_def)

lemma early_dispatch_invokes_nothing:
  assumes "now e < scheduled j"
  shows "invoked (dispatch opts e j) = []"
  using assms
  by (simp add: worker_def early_timer_def enqueue_def dispatch_def onJobComplete_def Let_def)

lemma callback_silent: "finalised (callback cb x y) = [] \<and> invoked (callback cb x y) = []"
  by (simp add: callback_def)

lemma retry_silent: "finalised (retry opts e j cb) = [] \<and> invoked (retry opts e j cb) = []"
  by (simp add: retry_def persist_def enqueue_def callback_def Let_def split: option.split)

lemma move_job_invoked: "invoked (move_job e j m) = []"
  by (simp add: move_job_def Let_def split: option.split)

lemma destroy_job_invoked: "invoked (destroy_job e j) = []"
  by (simp add: destroy_job_def destroy_def split: option.split)

lemma onJobComplete_invoked: "invoked (onJobComplete opts e err j) = []"
  by (simp add: onJobComplete_def retry_silent move_job_invoked destroy_job_invoked
      split: option.split)

lemma completions_invoked: "invoked (concat (map (completion opts e) tr)) = invoked tr"
proof (induction tr)
  case Nil
  show ?case by simp
next
  case (Cons x tr)
  have "invoked (completion opts e x) = invoked [x]"
    by (cases "(opts, e, x)" rule: completion.cases) (simp_all add: onJobComplete_invoked)
  then show ?case
    using Cons.IH invoked_append [of "[x]" tr] by (simp add: invoked_append)
qed

lemma dispatch_invoked: "invoked (dispatch opts e j) = invoked (worker opts e j)"
  by (simp add: dispatch_def completions_invoked)





section \<open>Facts about the scheduler\<close>

lemma queue_push_mset: "mset (queue_push x ts) = add_mset x (mset ts)"
proof -
  have "mset (takeWhile (\<lambda>y. snd y \<le> snd x) ts) + mset (dropWhile (\<lambda>y. snd y \<le> snd x) ts) =
      mset (takeWhile (\<lambda>y. snd y \<le> snd x) ts @ dropWhile (\<lambda>y. snd y \<le> snd x) ts)"
    by (simp only: mset_append)
  also have "\<dots> = mset ts"
    by (simp only: takeWhile_dropWhile_id)
  finally show ?thesis
    by (simp add: queue_push_def)
qed

lemma queue_push_set: "set (queue_push x ts) = insert x (set ts)"
  using queue_push_mset [of x ts] by (metis set_mset_add_mset_insert set_mset_mset)




lemma absorb_heap_other: "r' \<noteq> r \<Longrightarrow> heap (absorb r x s) r' = heap s r'"
  by (cases "(r, x, s)" rule: absorb.cases) simp_all

lemma absorbs_Nil: "absorbs r [] s = s"
  by (simp add: absorbs_def)

lemma absorbs_Cons: "absorbs r (x # tr) s = absorbs r tr (absorb r x s)"
  by (simp add: absorbs_def)




lemma absorbs_heap_other: "r' \<noteq> r \<Longrightarrow> heap (absorbs r tr s) r' = heap s r'"
  by (induction tr arbitrary: s) (simp_all add: absorbs_Nil absorbs_Cons absorb_heap_other)









lemma absorbs_new_step: "\<exists>r'. absorbs_new r (x # tr) s = absorbs_new r' tr (absorb r x s)"
  by (cases x) auto












section \<open>Facts about the processing flag\<close>

lemma flags_ok_mono: "flags_ok False tr \<Longrightarrow> flags_ok b tr"
  by (induction False tr arbitrary: b rule: flags_ok.induct) simp_all

lemma flags_ok_append: "flags_ok b a \<Longrightarrow> flags_ok False c \<Longrightarrow> flags_ok b (a @ c)"
  by (induction b a rule: flags_ok.induct) (simp_all add: flags_ok_mono)

lemma called_twice_flags: "flags_ok b (map (\<lambda>_. Trigger ev) xs)"
  by (induction xs) simp_all

lemma callback_flags: "flags_ok b (callback cb x y)"
  by (simp add: callback_def)

lemma early_timer_flags: "flags_ok b (early_timer j)"
  by (simp add: early_timer_def enqueue_def enqueue_job_def)

lemma push_flags: "flags_ok b (push opts e jid payload due cb)"
  by (simp add: push_trace new_Job_def callback_flags split: option.split)

lemma retry_flags: "flags_ok (processing j) (retry opts e j cb)"
proof (cases "processing j")
  case True
  then show ?thesis
    by (simp add: retry_trace enqueue_job_def retry_job_def callback_flags split: option.split)
next
  case False
  then show ?thesis by (simp add: retry_def)
qed

lemma move_job_flags: "flags_ok b (move_job e j m)"
  by (simp add: move_job_def Let_def split: option.split)

lemma destroy_job_flags: "flags_ok b (destroy_job e j)"
  by (simp add: destroy_job_def destroy_def split: option.split)

lemma onJobComplete_flags: "flags_ok (processing j) (onJobComplete opts e err (Some j))"
  by (simp add: onJobComplete_def retry_flags move_job_flags destroy_job_flags split: option.split)

lemma called_twice_completion:
  "concat (map (completion opts e) (map (\<lambda>_. Trigger ev) xs)) = map (\<lambda>_. Trigger ev) xs"
  by (induction xs) simp_all

lemma done_flags:
  "flags_ok (processing j)
     (concat (map (completion opts e) (once (map (\<lambda>x. (x, Some j)) signals))))"
proof (cases signals)
  case Nil
  then show ?thesis by simp
next
  case (Cons x rest)
  have "flags_ok (processing j)
      (onJobComplete opts e x (Some j) @
       map (\<lambda>_. Trigger (Error (JsError ''worker callback called twice''))) (map (\<lambda>x. (x, Some j)) rest))"
    by (rule flags_ok_append [OF onJobComplete_flags called_twice_flags])
  then show ?thesis
    by (simp add: Cons called_twice_completion del: map_map)
qed

lemma pending_processing_empty:
  "pending_processing s = [] \<longleftrightarrow> (\<forall>x\<in>set (tasks s). \<not> processing (heap s (fst x)))"
  by (simp add: pending_processing_def filter_empty_conv)

lemma absorb_flag:
  assumes "flags_ok b (x # tr)" "processing (heap s r) \<longrightarrow> b"
  shows "processing (heap (absorb r x s) r) \<longrightarrow> b"
  using assms by (cases "(r, x, s)" rule: absorb.cases) simp_all

lemma flags_ok_tail:
  assumes "flags_ok b (x # tr)"
  shows "flags_ok b tr"
  using assms flags_ok_mono by (cases "(b, x # tr)" rule: flags_ok.cases) auto

lemma absorbs_flag:
  assumes "flags_ok b tr" "processing (heap s r) \<longrightarrow> b"
  shows "processing (heap (absorbs r tr s) r) \<longrightarrow> b"
  using assms
proof (induction tr arbitrary: s)
  case Nil
  then show ?case by (simp add: absorbs_Nil)
next
  case (Cons x tr)
  have "processing (heap (absorb r x s) r) \<longrightarrow> b"
    by (rule absorb_flag [OF Cons.prems])
  moreover have "flags_ok b tr"
    by (rule flags_ok_tail [OF Cons.prems(1)])
  ultimately show ?case
    using Cons.IH by (simp add: absorbs_Cons)
qed

lemma absorb_pending:
  assumes ok: "flags_ok b (x # tr)" and inv: "pending_processing s = []"
    and free: "b \<longrightarrow> r \<notin> fst ` set (tasks s)"
  shows "pending_processing (absorb r x s) = [] \<and>
         (\<exists>b'. flags_ok b' tr \<and> (b' \<longrightarrow> r \<notin> fst ` set (tasks (absorb r x s))))"
proof (cases "(r, x, s)" rule: absorb.cases)
  case (1 r' j p s')
  with ok inv show ?thesis
    by (auto simp: pending_processing_empty queue_push_set)
next
  case (2 r' j s')
  with ok inv free show ?thesis
    by (auto simp: pending_processing_empty)
next
  case (3 r' j s')
  with ok inv free show ?thesis
    by (auto simp: pending_processing_empty)
qed (use ok inv free in \<open>auto simp: pending_processing_empty\<close>)

lemma absorbs_pending:
  assumes "flags_ok b tr" "pending_processing s = []" "b \<longrightarrow> r \<notin> fst ` set (tasks s)"
  shows "pending_processing (absorbs r tr s) = []"
  using assms
proof (induction tr arbitrary: s b)
  case Nil
  then show ?case by (simp add: absorbs_Nil)
next
  case (Cons x tr)
  from absorb_pending [OF Cons.prems] obtain b' where
    "pending_processing (absorb r x s) = []" "flags_ok b' tr"
    "b' \<longrightarrow> r \<notin> fst ` set (tasks (absorb r x s))"
    by blast
  then show ?case
    using Cons.IH by (simp add: absorbs_Cons)
qed


lemma pending_flag_clear:
  assumes "pending_processing s = []"
  shows "processing (heap s r) \<longrightarrow> r \<notin> fst ` set (tasks s)"
  using assms by (auto simp: pending_processing_empty)

lemma pause_flags: "flags_ok b (pause p) \<and> flags_ok b (resume p)"
  by (simp add: pause_def resume_def)

lemma enqueues_flags: "flags_ok b (concat (map enqueue js))"
  by (induction js arbitrary: b) (simp_all add: enqueue_def enqueue_job_def)

lemma recovered_flags: "flags_ok False (recovered opts readdir fromDisk)"
  by (simp add: recovered_def reload_def flags_ok_append enqueues_flags
      split: sum.split option.split)

lemma absorb_unflagged:
  assumes "flags_ok False (x # tr)" "processing (heap (absorb r x s) y)"
  shows "processing (heap s y)"
  using assms by (cases "(r, x, s)" rule: absorb.cases) (simp_all split: if_splits)

lemma absorbs_new_flag:
  assumes "flags_ok False tr" "processing (heap (absorbs_new r tr s) y)"
  shows "processing (heap s y)"
  using assms
proof (induction tr arbitrary: r s)
  case Nil
  then show ?case by simp
next
  case (Cons x tr)
  obtain r' where r': "absorbs_new r (x # tr) s = absorbs_new r' tr (absorb r x s)"
    using absorbs_new_step by blast
  have "flags_ok False tr"
    by (rule flags_ok_tail [OF Cons.prems(1)])
  with Cons.IH [of r' "absorb r x s"] Cons.prems(2) r'
  have "processing (heap (absorb r x s) y)" by simp
  with Cons.prems(1) show ?case by (rule absorb_unflagged)
qed

lemma absorbs_new_pending:
  assumes "flags_ok False tr" "pending_processing s = []"
  shows "pending_processing (absorbs_new r tr s) = []"
  using assms
proof (induction tr arbitrary: r s)
  case Nil
  then show ?case by simp
next
  case (Cons x tr)
  obtain r' where r': "absorbs_new r (x # tr) s = absorbs_new r' tr (absorb r x s)"
    using absorbs_new_step by blast
  have "pending_processing (absorb r x s) = []"
    using absorb_pending [OF Cons.prems(1) Cons.prems(2), of r] by simp
  moreover have "flags_ok False tr"
    by (rule flags_ok_tail [OF Cons.prems(1)])
  ultimately show ?case
    using Cons.IH [of "absorb r x s" r'] by (simp add: r')
qed

lemma step_trace:
  assumes "a \<noteq> Process" "\<forall>r readdir fromDisk. a \<noteq> Recovered r readdir fromDisk"
  shows "\<exists>r tr. step opts e a s = absorbs r tr s \<and> flags_ok (processing (heap s r)) tr"
proof (cases a)
  case Process
  with assms show ?thesis by simp
next
  case (Timer r)
  have "flags_ok (processing (heap s r)) (early_timer (heap s r))"
    by (rule early_timer_flags)
  moreover have "step opts e a s = absorbs r (early_timer (heap s r)) s"
    by (simp only: Timer step.simps)
  ultimately show ?thesis by blast
next
  case (Done r signals)
  have "flags_ok (processing (heap s r))
      (concat (map (completion opts e) (once (map (\<lambda>x. (x, Some (heap s r))) signals))))"
    by (rule done_flags)
  moreover have "step opts e a s =
      absorbs r (concat (map (completion opts e) (once (map (\<lambda>x. (x, Some (heap s r))) signals)))) s"
    by (simp only: Done step.simps)
  ultimately show ?thesis by blast
next
  case (Retry r cb)
  have "flags_ok (processing (heap s r)) (retry opts e (heap s r) cb)"
    by (rule retry_flags)
  moreover have "step opts e a s = absorbs r (retry opts e (heap s r) cb) s"
    by (simp only: Retry step.simps)
  ultimately show ?thesis by blast
next
  case (Push r jid payload due cb)
  have "flags_ok (processing (heap s r)) (push opts e jid payload due cb)"
    by (rule push_flags)
  moreover have "step opts e a s = absorbs r (push opts e jid payload due cb) s"
    by (simp only: Push step.simps)
  ultimately show ?thesis by blast
next
  case PauseCall
  have "flags_ok (processing (heap s 0)) (pause (paused s))"
    by (simp add: pause_flags)
  moreover have "step opts e a s = absorbs 0 (pause (paused s)) s"
    by (simp only: PauseCall step.simps)
  ultimately show ?thesis by blast
next
  case ResumeCall
  have "flags_ok (processing (heap s 0)) (resume (paused s))"
    by (simp add: pause_flags)
  moreover have "step opts e a s = absorbs 0 (resume (paused s)) s"
    by (simp only: ResumeCall step.simps)
  ultimately show ?thesis by blast
next
  case (Recovered r readdir fromDisk)
  with assms show ?thesis by simp
qed

lemma step_flag:
  assumes a: "a \<noteq> Process" and set: "processing (heap (step opts e a s) r')"
  shows "processing (heap s r')"
proof (cases "\<exists>r readdir fromDisk. a = Recovered r readdir fromDisk")
  case True
  then obtain r readdir fromDisk where "a = Recovered r readdir fromDisk" by blast
  with set show ?thesis
    using absorbs_new_flag [OF recovered_flags] by simp
next
  case False
  then have "\<forall>r readdir fromDisk. a \<noteq> Recovered r readdir fromDisk" by blast
  from step_trace [OF a this] obtain r tr where
    st: "step opts e a s = absorbs r tr s" and ok: "flags_ok (processing (heap s r)) tr"
    by blast
  show ?thesis
  proof (cases "r' = r")
    case True
    with absorbs_flag [OF ok, of s r] set st show ?thesis by simp
  next
    case False
    with set st show ?thesis by (simp add: absorbs_heap_other)
  qed
qed

lemma process_flag:
  assumes "processing (heap (process opts t s) r')" "\<not> processing (heap s r')"
  shows "started (process opts t s) = started s @ [r']"
  using assms
  by (auto simp: process_def split: if_splits list.splits)

lemma process_pending:
  assumes inv: "pending_processing s = []" and d: "distinct (map fst (tasks s))"
  shows "pending_processing (process opts t s) = []"
proof (cases "paused s \<or> concurrency opts \<le> workers s")
  case True
  with inv show ?thesis by (simp add: process_def)
next
  case False
  show ?thesis
  proof (cases "tasks s")
    case Nil
    with inv False show ?thesis by (simp add: process_def)
  next
    case (Cons x ts)
    obtain r p where x: "x = (r, p)" by (cases x)
    from d Cons x have "r \<notin> fst ` set ts" by simp
    moreover from inv Cons have "\<forall>y\<in>set ts. \<not> processing (heap s (fst y))"
      by (simp add: pending_processing_empty)
    ultimately show ?thesis
      using False Cons x by (auto simp: process_def pending_processing_empty)
  qed
qed

lemma step_pending:
  assumes inv: "pending_processing s = []"
    and d: "a = Process \<longrightarrow> distinct (map fst (tasks s))"
  shows "pending_processing (step opts e a s) = []"
proof (cases "a = Process")
  case True
  with process_pending [OF inv] d show ?thesis by simp
next
  case False
  show ?thesis
  proof (cases "\<exists>r readdir fromDisk. a = Recovered r readdir fromDisk")
    case True
    then obtain r readdir fromDisk where "a = Recovered r readdir fromDisk" by blast
    then show ?thesis
      using absorbs_new_pending [OF recovered_flags inv] by simp
  next
    case other: False
    then have "\<forall>r readdir fromDisk. a \<noteq> Recovered r readdir fromDisk" by blast
    from step_trace [OF False this] obtain r tr where
      st: "step opts e a s = absorbs r tr s" and ok: "flags_ok (processing (heap s r)) tr"
      by blast
    show ?thesis
      by (simp add: st absorbs_pending [OF ok inv pending_flag_clear [OF inv]])
  qed
qed

lemma pushes_unflagged_append:
  "pushes_unflagged (a @ b) \<longleftrightarrow> pushes_unflagged a \<and> pushes_unflagged b"
  by (simp add: pushes_unflagged_def pushed_append)

lemma pushes_unflagged_quiet: "pushed tr = [] \<Longrightarrow> pushes_unflagged tr"
  by (simp add: pushes_unflagged_def)

lemma enqueue_unflagged: "pushes_unflagged (enqueue j)"
  by (simp add: pushes_unflagged_def enqueue_def enqueue_job_def)

lemma enqueues_unflagged: "pushes_unflagged (concat (map enqueue js))"
proof (induction js)
  case Nil
  show ?case by (simp add: pushes_unflagged_def)
next
  case (Cons j js)
  then show ?case by (simp add: pushes_unflagged_append enqueue_unflagged)
qed

lemma push_unflagged: "pushes_unflagged (push opts e jid payload due cb)"
  by (simp add: pushes_unflagged_def push_trace pushed_append callback_quiet new_Job_def
      split: option.split)

lemma retry_unflagged: "pushes_unflagged (retry opts e j cb)"
proof (cases "processing j")
  case True
  then show ?thesis
    by (simp add: pushes_unflagged_def retry_pushed enqueue_job_def retry_job_def
        split: option.split)
next
  case False
  then show ?thesis by (simp add: pushes_unflagged_def retry_def)
qed

lemma worker_unflagged: "pushes_unflagged (worker opts e j)"
  by (simp add: pushes_unflagged_def worker_def persist_def early_timer_def enqueue_def
      enqueue_job_def pushed_append once_quiet Let_def split: option.split)

lemma onJobComplete_unflagged: "pushes_unflagged (onJobComplete opts e err j)"
  using retry_unflagged
  by (simp add: onJobComplete_def pushes_unflagged_quiet move_job_quiet destroy_job_quiet
      pushes_unflagged_def split: option.split)

lemma completion_unflagged:
  "pushes_unflagged [x] \<Longrightarrow> pushes_unflagged (completion opts e x)"
  using onJobComplete_unflagged
  by (cases "(opts, e, x)" rule: completion.cases) (simp_all add: pushes_unflagged_def)

lemma completions_unflagged:
  "pushes_unflagged tr \<Longrightarrow> pushes_unflagged (concat (map (completion opts e) tr))"
proof (induction tr)
  case Nil
  then show ?case by simp
next
  case (Cons x tr)
  from Cons.prems have "pushes_unflagged ([x] @ tr)" by simp
  then have "pushes_unflagged [x]" "pushes_unflagged tr"
    by (simp_all only: pushes_unflagged_append)
  with Cons.IH show ?case
    by (simp add: pushes_unflagged_append completion_unflagged)
qed

lemma dispatch_unflagged: "pushes_unflagged (dispatch opts e j)"
  unfolding dispatch_def by (rule completions_unflagged) (rule worker_unflagged)

lemma init_unflagged: "pushes_unflagged (init opts readdir fromDisk)"
  by (simp add: init_def recovered_def reload_def pushes_unflagged_def pushed_append
      enqueues_unflagged [unfolded pushes_unflagged_def] split: sum.split)


text \<open>The record the dispatch leaves in the store is the one the worker goes on with.\<close>

lemma worker_job_in_worker:
  "worker opts e j =
     (if scheduled j \<le> now e then
        persist e (worker_job (now e) j) (\<lambda>err.
          case err of
            Some x \<Rightarrow> once [(Some x, Some (worker_job (now e) j))]
          | None \<Rightarrow>
              Invoke (worker_job (now e) j) #
              once (map (\<lambda>r. (r, Some (worker_job (now e) j)))
                     (worker_result e (worker_job (now e) j))))
      else SetTimeout (delayEarlyJob opts) # early_timer (worker_job (now e) j))"
  by (simp add: worker_def worker_job_def Let_def cong: option.case_cong)

section \<open>The worker\<close>

text \<open>
  Claim C1. When the due time of the dispatched record has arrived, the worker's first
  action is to persist the record with the processing flag set and the attempt counter
  raised by exactly one, and that is its only write. If the write succeeds, the
  execution function is invoked next, with that record. If the write fails, the
  execution function is not invoked at all, and the worker completes with the write's
  error and the record.
\<close>

theorem worker_persists_before_invoking:
  assumes due: "scheduled j \<le> now e"
  shows "let j' = j\<lparr>processing := True, attempts := attempts j + 1\<rparr> in
           (\<exists>rest. worker opts e j = Persist j' # rest) \<and>
           persisted (worker opts e j) = [j'] \<and>
           (case persist_result e j' of
              None \<Rightarrow>
                worker opts e j =
                  Persist j' # Invoke j' # once (map (\<lambda>r. (r, Some j')) (worker_result e j')) \<and>
                invoked (worker opts e j) = [j']
            | Some x \<Rightarrow>
                worker opts e j = [Persist j', Trigger (Error x), Complete (Some x) (Some j')] \<and>
                invoked (worker opts e j) = [] \<and>
                completions (worker opts e j) = [(Some x, Some j')])"
  using due
  by (simp add: worker_def persist_def Let_def once_quiet split: option.split)

theorem worker_persists_before_invoking_witness:
  "worker sample_options (failing_disk 100 (JsError ''disk full''))
     (sample_job 50 0 False) =
     [Persist (sample_job 50 1 True), Trigger (Error (JsError ''disk full'')),
      Complete (Some (JsError ''disk full'')) (Some (sample_job 50 1 True))] \<and>
   invoked (worker sample_options (failing_disk 100 (JsError ''disk full''))
     (sample_job 50 0 False)) = [] \<and>
   worker sample_options (sample_env 100 None) (sample_job 50 0 False) =
     [Persist (sample_job 50 1 True), Invoke (sample_job 50 1 True),
      Complete None (Some (sample_job 50 1 True))]"
  using
    worker_persists_before_invoking
      [of "sample_job 50 0 False" "failing_disk 100 (JsError ''disk full'')"
          sample_options]
    worker_persists_before_invoking
      [of "sample_job 50 0 False" "sample_env 100 None" sample_options]
  by (simp add: sample_job_def failing_disk_def sample_env_def Let_def)




section \<open>Retrying failed executions\<close>




text \<open>
  Claim C4, as amended. A retry (the caller's, and the one the completion handler
  starts after a failed execution) adds \<open>retryFailedJobDelay\<close> to the due time the
  record already has; the clock is not read. The record is written with that due time,
  and when the write succeeds it is pushed into the queue under it, with its id and
  attempt counter as they were; when the write fails nothing is pushed.
\<close>

theorem retry_adds_delay_to_due_time:
  assumes p: "processing j"
  shows
    "persisted (retry opts e j cb) =
       [j\<lparr>scheduled := scheduled j + retryFailedJobDelay opts\<rparr>] \<and>
     pushed (retry opts e j cb) =
       (case persist_result e (j\<lparr>scheduled := scheduled j + retryFailedJobDelay opts\<rparr>) of
          None \<Rightarrow>
            [(j\<lparr>scheduled := scheduled j + retryFailedJobDelay opts, processing := False\<rparr>,
              scheduled j + retryFailedJobDelay opts)]
        | Some y \<Rightarrow> []) \<and>
     (retryFailedJobs opts \<and> (maxJobFailures opts \<le> 0 \<or> attempts j < maxJobFailures opts) \<longrightarrow>
        onJobComplete opts e (Some x) (Some j) =
          [Trigger (JobError x (Some j)), Trigger (Error x)] @ retry opts e j False)"
  by (simp add: retry_persisted [OF p] retry_pushed [OF p] retry_job_def enqueue_job_def
      onJobComplete_def split: option.split)

theorem retry_adds_delay_to_due_time_witness:
  "persisted (retry sample_options (sample_env 5000 None) (sample_job 1000 1 True) True) =
     [sample_job 16000 1 True] \<and>
   pushed (retry sample_options (sample_env 5000 None) (sample_job 1000 1 True) True) =
     [(sample_job 16000 1 False, 16000)] \<and>
   onJobComplete (retrying_options 3) (sample_env 5000 None) (Some (JsError ''boom''))
     (Some (sample_job 1000 1 True)) =
     [Trigger (JobError (JsError ''boom'') (Some (sample_job 1000 1 True))),
      Trigger (Error (JsError ''boom''))] @
     retry (retrying_options 3) (sample_env 5000 None) (sample_job 1000 1 True) False"
proof -
  have p: "processing (sample_job 1000 1 True)" by (simp add: sample_job_def)
  have b: "retryFailedJobs (retrying_options 3) \<and>
      attempts (sample_job 1000 1 True) < maxJobFailures (retrying_options 3)"
    by (simp add: retrying_options_eq sample_job_def)
  show ?thesis
    using
      retry_adds_delay_to_due_time
        [OF p, of sample_options "sample_env 5000 None" True "JsError ''boom''"]
      retry_adds_delay_to_due_time
        [OF p, of "retrying_options 3" "sample_env 5000 None" True "JsError ''boom''"]
      b
    by (simp add: sample_job_def sample_options_eq retrying_options_eq sample_env_def)
qed

text \<open>
  Claim C4 as stated fails: a record due at 1000 that is dispatched and fails at time
  5000 is pushed back with due time 16000, while the clock plus the retry delay is 20000.
\<close>

theorem retry_due_time_is_not_now_plus_delay:
  "pushed (dispatch (retrying_options 3) (sample_env 5000 (Some (JsError ''boom'')))
     (sample_job 1000 0 False)) = [(sample_job 16000 1 False, 16000)] \<and>
   now (sample_env 5000 (Some (JsError ''boom''))) + retryFailedJobDelay (retrying_options 3) =
     20000"
  by (simp add: dispatch_def worker_def persist_def retry_def onJobComplete_def enqueue_def
      enqueue_job_def retry_job_def callback_def retrying_options_eq
      sample_env_def sample_job_def Let_def)

section \<open>Permanent failure\<close>

text \<open>
  Claim C5, as amended. With the options as the constructor makes them, when an
  execution completes with an error while retrying is enabled and the budget is used up
  (\<open>maxJobFailures\<close> is positive and the attempts have reached it), the
  permanent-failure event fires and nothing is pushed back; the record's file is renamed
  to \<open>.failed-\<close> followed by the id, in the record's directory, when \<open>moveFailedJobs\<close>
  is in effect, and is otherwise deleted when \<open>destroyFailedJobs\<close> is. Moving is in
  effect whenever the caller's options neither mention it nor ask for destruction, and
  asking for destruction switches it off.
\<close>

theorem exhausted_job_is_finalised_as_failed:
  assumes made: "opts = KewKew_options cwd name ov"
    and on: "retryFailedJobs opts"
    and pos: "0 < maxJobFailures opts"
    and out: "maxJobFailures opts \<le> attempts j"
  shows
    "finalised (onJobComplete opts e (Some x) (Some j)) =
       Trigger (JobFail j) #
       (if moveFailedJobs opts
        then [Rename (job_file j) (path_join (job_directory j) (''.failed-'' @ job_id j))]
        else if destroyFailedJobs opts then [Destroy j] else []) \<and>
     pushed (onJobComplete opts e (Some x) (Some j)) = [] \<and>
     (\<forall>v. ov = Some v \<and> o_moveFailedJobs v = None \<and> o_destroyFailedJobs v \<noteq> Some True \<longrightarrow>
        moveFailedJobs opts) \<and>
     (\<forall>v. ov = Some v \<and> o_destroyFailedJobs v = Some True \<longrightarrow>
        \<not> moveFailedJobs opts \<and> destroyFailedJobs opts)"
proof (intro conjI)
  show "finalised (onJobComplete opts e (Some x) (Some j)) =
       Trigger (JobFail j) #
       (if moveFailedJobs opts
        then [Rename (job_file j) (path_join (job_directory j) (''.failed-'' @ job_id j))]
        else if destroyFailedJobs opts then [Destroy j] else [])"
    using on pos out
    by (simp add: onJobComplete_def move_job_finalised destroy_job_finalised)
  show "pushed (onJobComplete opts e (Some x) (Some j)) = []"
    using on pos out
    by (simp add: onJobComplete_def move_job_quiet destroy_job_quiet)
  show "\<forall>v. ov = Some v \<and> o_moveFailedJobs v = None \<and> o_destroyFailedJobs v \<noteq> Some True \<longrightarrow>
        moveFailedJobs opts"
    using move_is_the_default by (simp add: made)
  show "\<forall>v. ov = Some v \<and> o_destroyFailedJobs v = Some True \<longrightarrow>
        \<not> moveFailedJobs opts \<and> destroyFailedJobs opts"
    using destroy_switches_move_off by (simp add: made)
qed

theorem exhausted_job_is_finalised_as_failed_witness:
  "finalised (onJobComplete
     (KewKew_options ''/var'' ''q'' (Some (no_overrides\<lparr>o_retryFailedJobs := Some True\<rparr>)))
     (sample_env 100 None) (Some (JsError ''boom'')) (Some (sample_job 50 3 True))) =
     [Trigger (JobFail (sample_job 50 3 True)), Rename ''/var/q/a1'' ''/var/q/.failed-a1''] \<and>
   moveFailedJobs
     (KewKew_options ''/var'' ''q'' (Some (no_overrides\<lparr>o_retryFailedJobs := Some True\<rparr>))) \<and>
   finalised (onJobComplete
     (KewKew_options ''/var'' ''q''
        (Some (no_overrides\<lparr>o_retryFailedJobs := Some True, o_destroyFailedJobs := Some True\<rparr>)))
     (sample_env 100 None) (Some (JsError ''boom'')) (Some (sample_job 50 3 True))) =
     [Trigger (JobFail (sample_job 50 3 True)), Destroy (sample_job 50 3 True)]"
proof -
  let ?a = "Some (no_overrides\<lparr>o_retryFailedJobs := Some True\<rparr>)"
  let ?b = "Some (no_overrides\<lparr>o_retryFailedJobs := Some True, o_destroyFailedJobs := Some True\<rparr>)"
  have a: "retryFailedJobs (KewKew_options ''/var'' ''q'' ?a) \<and>
      0 < maxJobFailures (KewKew_options ''/var'' ''q'' ?a) \<and>
      maxJobFailures (KewKew_options ''/var'' ''q'' ?a) \<le> attempts (sample_job 50 3 True)"
    by (simp add: KewKew_options_def applyOptions_def default_options_def no_overrides_def
        pick_def sample_job_def Let_def)
  have b: "retryFailedJobs (KewKew_options ''/var'' ''q'' ?b) \<and>
      0 < maxJobFailures (KewKew_options ''/var'' ''q'' ?b) \<and>
      maxJobFailures (KewKew_options ''/var'' ''q'' ?b) \<le> attempts (sample_job 50 3 True)"
    by (simp add: KewKew_options_def applyOptions_def default_options_def no_overrides_def
        pick_def sample_job_def Let_def)
  have v: "o_moveFailedJobs (no_overrides\<lparr>o_retryFailedJobs := Some True\<rparr>) = None \<and>
      o_destroyFailedJobs (no_overrides\<lparr>o_retryFailedJobs := Some True\<rparr>) \<noteq> Some True \<and>
      o_destroyFailedJobs
        (no_overrides\<lparr>o_retryFailedJobs := Some True, o_destroyFailedJobs := Some True\<rparr>) =
        Some True"
    by (simp add: no_overrides_def)
  have f: "job_file (sample_job 50 3 True) = ''/var/q/a1'' \<and>
      path_join (job_directory (sample_job 50 3 True)) (''.failed-'' @ job_id (sample_job 50 3 True)) =
        ''/var/q/.failed-a1''"
    by (simp add: sample_job_def sample_paths)
  show ?thesis
    using
      exhausted_job_is_finalised_as_failed
        [OF refl, of "''/var''" "''q''" ?a "sample_job 50 3 True" "sample_env 100 None"
            "JsError ''boom''"]
      exhausted_job_is_finalised_as_failed
        [OF refl, of "''/var''" "''q''" ?b "sample_job 50 3 True" "sample_env 100 None"
            "JsError ''boom''"]
      a b v f
    by simp
qed

text \<open>
  Claim C5 as stated fails twice over. Under the options of a constructor called
  without options (retrying disabled), a failed execution fires the two error events
  and nothing else: the file is neither renamed nor deleted. And with retrying enabled,
  the budget used up and \<open>moveFailedJobs\<close> switched off by the caller, the
  permanent-failure event fires but the file is neither renamed nor deleted.
\<close>

theorem failure_without_retrying_is_not_finalised:
  "dispatch (KewKew_options ''/var'' ''q'' None) (sample_env 100 (Some (JsError ''boom'')))
     (sample_job 50 0 False) =
     [Persist (sample_job 50 1 True), Invoke (sample_job 50 1 True),
      Complete (Some (JsError ''boom'')) (Some (sample_job 50 1 True)),
      Trigger (JobError (JsError ''boom'') (Some (sample_job 50 1 True))),
      Trigger (Error (JsError ''boom''))] \<and>
   finalised (dispatch (KewKew_options ''/var'' ''q'' None)
     (sample_env 100 (Some (JsError ''boom''))) (sample_job 50 0 False)) = [] \<and>
   finalised (dispatch
     (KewKew_options ''/var'' ''q''
        (Some (no_overrides\<lparr>o_retryFailedJobs := Some True, o_moveFailedJobs := Some False\<rparr>)))
     (sample_env 100 (Some (JsError ''boom''))) (sample_job 50 2 False)) =
     [Trigger (JobFail (sample_job 50 3 True))]"
  by (simp add: dispatch_def worker_def persist_def onJobComplete_def KewKew_options_def
      applyOptions_def pick_def no_overrides_def default_options_def sample_env_def
      sample_job_def Let_def)

section \<open>Recovery\<close>

text \<open>
  Claim C6. If a file of the queue directory whose name does not begin with a dot
  cannot be read back, recovery ends with the error of such a file (with that file's
  error when no other file fails differently): the completion of the reload receives
  it, initialisation triggers it on the error channel after creating and pausing the
  queue, and no record is pushed, the readable ones included; the ready event does not
  fire and the queue is not resumed.
\<close>

theorem recovery_aborts_on_corrupt_file:
  assumes f: "f \<in> set files" and shown: "\<not> dotFile f"
    and bad: "fromDisk (path_join (directory opts) f) = Inl x"
  shows "\<exists>y g. g \<in> set files \<and> \<not> dotFile g \<and>
           fromDisk (path_join (directory opts) g) = Inl y \<and>
           ((\<forall>h\<in>set files. \<not> dotFile h \<longrightarrow>
               (\<forall>z. fromDisk (path_join (directory opts) h) = Inl z \<longrightarrow> z = x)) \<longrightarrow> y = x) \<and>
           reload opts (Inr files) fromDisk k = k (Some y) \<and>
           init opts (Inr files) fromDisk =
             [Mkdirp (directory opts), QueueCreate (concurrency opts), QueuePause,
              Trigger (Error y)] \<and>
           pushed (init opts (Inr files) fromDisk) = []"
proof -
  let ?ts = "map (\<lambda>f. fromDisk (path_join (directory opts) f)) (filterDotFiles files)"
  have "Inl x \<in> set ?ts"
    using f shown bad by (force simp: filterDotFiles_def)
  then obtain y where y: "parallelLimit ?ts = Inl y" "Inl y \<in> set ?ts"
    using parallelLimit_fails by blast
  from y(2) obtain g where g: "g \<in> set files" "\<not> dotFile g"
      "fromDisk (path_join (directory opts) g) = Inl y"
    by (auto simp: filterDotFiles_def)
  have "reload opts (Inr files) fromDisk k = k (Some y)" for k
    by (simp add: reload_def y(1))
  then show ?thesis
    using g by (auto simp: init_def recovered_def)
qed

theorem recovery_aborts_on_corrupt_file_witness:
  "init sample_options (Inr [''.success-b2'', ''a1'', ''c3'']) sample_disk =
     [Mkdirp ''/var/q'', QueueCreate 4, QueuePause, Trigger (Error (JsError ''Unexpected token''))] \<and>
   sample_disk ''/var/q/a1'' = Inr (new_Job ''a1'' ''payload'' 50 ''/var/q'')"
proof -
  have a: "''c3'' \<in> set [''.success-b2'', ''a1'', ''c3'']" by simp
  have b: "\<not> dotFile ''c3''" by simp
  have c: "sample_disk (path_join (directory sample_options) ''c3'') =
      Inl (JsError ''Unexpected token'')"
    by (simp add: sample_disk_def sample_paths sample_options_eq)
  have d: "directory sample_options = ''/var/q'' \<and> concurrency sample_options = 4"
    by (simp add: sample_options_eq sample_paths)
  obtain y g where
    g: "g \<in> set [''.success-b2'', ''a1'', ''c3'']" "\<not> dotFile g"
      "sample_disk (path_join (directory sample_options) g) = Inl y" and
    i: "init sample_options (Inr [''.success-b2'', ''a1'', ''c3'']) sample_disk =
      [Mkdirp (directory sample_options), QueueCreate (concurrency sample_options),
       QueuePause, Trigger (Error y)]"
    using recovery_aborts_on_corrupt_file
      [of "''c3''" "[''.success-b2'', ''a1'', ''c3'']" sample_disk sample_options, OF a b c]
    by blast
  from g(3) have "y = JsError ''Unexpected token''"
    by (simp add: sample_disk_def split: if_splits)
  with i d show ?thesis
    by (simp add: sample_disk_def)
qed

section \<open>Pushing a job\<close>

text \<open>
  Claim C8, as amended. A push writes a new record and, when that write succeeds, puts
  it into the queue under its due time. When the caller gives no due time (or a zero
  one), the record is due 10000 ms after the clock reading of the push, and a dispatch
  at any earlier time does not invoke the execution function. A due time the caller
  gives is used as it is, whatever the time of the push: a dispatch at or after it
  counts the attempt and writes the record, and invokes the execution function when
  that write succeeds.
\<close>

theorem push_default_due_time:
  "persisted (push opts e jid payload due cb) =
     [new_Job jid payload (push_due (now e) due) (directory opts)] \<and>
   pushed (push opts e jid payload due cb) =
     (case persist_result e (new_Job jid payload (push_due (now e) due) (directory opts)) of
        None \<Rightarrow>
          [(new_Job jid payload (push_due (now e) due) (directory opts), push_due (now e) due)]
      | Some y \<Rightarrow> []) \<and>
   (due = None \<or> due = Some 0 \<longrightarrow>
      push_due (now e) due = now e + 10000 \<and>
      (\<forall>e'. now e' < now e + 10000 \<longrightarrow>
         invoked (dispatch opts e'
           (new_Job jid payload (push_due (now e) due) (directory opts))) = [])) \<and>
   (\<forall>d. due = Some d \<and> d \<noteq> 0 \<longrightarrow>
      push_due (now e) due = d \<and>
      (\<forall>e'. d \<le> now e' \<longrightarrow>
         persisted (worker opts e' (new_Job jid payload d (directory opts))) =
           [new_Job jid payload d (directory opts)\<lparr>processing := True, attempts := 1\<rparr>] \<and>
         invoked (dispatch opts e' (new_Job jid payload d (directory opts))) =
           (case persist_result e'
                   (new_Job jid payload d (directory opts)\<lparr>processing := True, attempts := 1\<rparr>) of
              None \<Rightarrow> [new_Job jid payload d (directory opts)\<lparr>processing := True, attempts := 1\<rparr>]
            | Some y \<Rightarrow> [])))"
proof (intro conjI impI allI)
  show "persisted (push opts e jid payload due cb) =
     [new_Job jid payload (push_due (now e) due) (directory opts)]"
    by (simp add: push_trace persisted_append callback_quiet split: option.split)
  show "pushed (push opts e jid payload due cb) =
     (case persist_result e (new_Job jid payload (push_due (now e) due) (directory opts)) of
        None \<Rightarrow>
          [(new_Job jid payload (push_due (now e) due) (directory opts), push_due (now e) due)]
      | Some y \<Rightarrow> [])"
    by (simp add: push_trace pushed_append callback_quiet split: option.split)
next
  assume "due = None \<or> due = Some 0"
  then show "push_due (now e) due = now e + 10000"
    by (auto simp: push_due_def)
next
  fix e' :: env
  assume "due = None \<or> due = Some 0" and "now e' < now e + 10000"
  then have "now e' < scheduled (new_Job jid payload (push_due (now e) due) (directory opts))"
    by (auto simp: push_due_def new_Job_def)
  then show "invoked (dispatch opts e'
      (new_Job jid payload (push_due (now e) due) (directory opts))) = []"
    by (rule early_dispatch_invokes_nothing)
next
  fix d
  assume "due = Some d \<and> d \<noteq> 0"
  then show "push_due (now e) due = d"
    by (simp add: push_due_def)
next
  fix d and e' :: env
  assume "due = Some d \<and> d \<noteq> 0" and late: "d \<le> now e'"
  let ?j = "new_Job jid payload d (directory opts)"
  from late have due: "scheduled ?j \<le> now e'" by (simp add: new_Job_def)
  have j': "?j\<lparr>processing := True, attempts := attempts ?j + 1\<rparr> =
      ?j\<lparr>processing := True, attempts := 1\<rparr>"
    by (simp add: new_Job_def)
  show "persisted (worker opts e' ?j) = [?j\<lparr>processing := True, attempts := 1\<rparr>]"
    using due
    by (simp add: worker_def persist_def Let_def once_quiet j' split: option.split)
  show "invoked (dispatch opts e' ?j) =
      (case persist_result e' (?j\<lparr>processing := True, attempts := 1\<rparr>) of
         None \<Rightarrow> [?j\<lparr>processing := True, attempts := 1\<rparr>]
       | Some y \<Rightarrow> [])"
    using due
    by (simp add: dispatch_invoked worker_def persist_def Let_def once_quiet j'
        split: option.split)
qed

theorem push_default_due_time_witness:
  "pushed (push sample_options (sample_env 100000 None) ''a1'' ''payload'' None True) =
     [(sample_job 110000 0 False, 110000)] \<and>
   invoked (dispatch sample_options (sample_env 109999 None) (sample_job 110000 0 False)) = [] \<and>
   pushed (push sample_options (sample_env 100000 None) ''a1'' ''payload'' (Some 70) True) =
     [(sample_job 70 0 False, 70)] \<and>
   invoked (dispatch sample_options (sample_env 100000 None) (sample_job 70 0 False)) =
     [sample_job 70 1 True] \<and>
   invoked (dispatch sample_options (failing_disk 100000 (JsError ''disk full''))
     (sample_job 70 0 False)) = []"
proof -
  have n: "now (sample_env 100000 None) = 100000 \<and> now (sample_env 109999 None) = 109999 \<and>
      now (failing_disk 100000 (JsError ''disk full'')) = 100000 \<and>
      directory sample_options = ''/var/q'' \<and>
      persist_result (sample_env 100000 None) = (\<lambda>j. None) \<and>
      persist_result (failing_disk 100000 (JsError ''disk full'')) =
        (\<lambda>j. Some (JsError ''disk full''))"
    by (simp add: sample_env_def failing_disk_def sample_options_eq)
  have j: "sample_job d 0 False\<lparr>processing := True, attempts := 1\<rparr> = sample_job d 1 True" for d
    by (simp add: sample_job_def)
  show ?thesis
    using
      push_default_due_time
        [of sample_options "sample_env 100000 None" "''a1''" "''payload''" None True]
      push_default_due_time
        [of sample_options "sample_env 100000 None" "''a1''" "''payload''" "Some 70" True]
      n
    by (simp add: push_due_def sample_new_Job j)
qed

text \<open>
  Claim C8 as stated fails: a record pushed at time 100000 with the past due time 70 is
  pushed under 70, and a dispatch at time 100000 itself invokes the execution function
  on it.
\<close>

theorem push_with_past_due_time_is_eligible_at_once:
  "pushed (push sample_options (sample_env 100000 None) ''a1'' ''payload'' (Some 70) True) =
     [(sample_job 70 0 False, 70)] \<and>
   invoked (dispatch sample_options (sample_env 100000 None) (sample_job 70 0 False)) =
     [sample_job 70 1 True]"
  by (simp add: push_def dispatch_def worker_def persist_def onJobComplete_def enqueue_def
      enqueue_job_def callback_def new_Job_def push_due_def sample_options_eq move_job_def
      sample_env_def sample_job_def sample_paths Let_def)

section \<open>Manual retry\<close>

text \<open>
  Claim C9. \<open>retry\<close> on a record whose processing flag is not set throws and does
  nothing else: it writes nothing and pushes nothing. On a record whose flag is set it
  goes ahead and writes the rescheduled record.
\<close>

theorem retry_of_unprocessed_job_throws:
  "(\<not> processing j \<longrightarrow>
      retry opts e j cb = [Throw (JsError ''Cannot retry job because it is unprocessed'')] \<and>
      persisted (retry opts e j cb) = [] \<and> pushed (retry opts e j cb) = []) \<and>
   (processing j \<longrightarrow> persisted (retry opts e j cb) = [retry_job opts j])"
  by (simp add: retry_def persist_def Let_def persisted_append callback_def enqueue_def
      split: option.split)

theorem retry_of_unprocessed_job_throws_witness:
  "retry sample_options (sample_env 100 None) (sample_job 50 1 False) True =
     [Throw (JsError ''Cannot retry job because it is unprocessed'')] \<and>
   persisted (retry sample_options (sample_env 100 None) (sample_job 50 1 True) True) =
     [sample_job 15050 1 True]"
  using
    retry_of_unprocessed_job_throws
      [of "sample_job 50 1 False" sample_options "sample_env 100 None" True]
    retry_of_unprocessed_job_throws
      [of "sample_job 50 1 True" sample_options "sample_env 100 None" True]
  by (simp add: sample_job_def sample_options_eq retry_job_def)

section \<open>Shutdown\<close>




section \<open>The processing flag of pending records\<close>

text \<open>
  Claim C10, as amended. Every record that a push, a recovery, a worker (the early
  re-queue), a retry or a whole dispatch puts into the queue has its processing flag
  cleared at that moment and is pushed under its own due time. No callback other than
  the queue's dispatch sets the flag of any record, and a dispatch sets it only for
  the record it hands to the worker. Hence, if no pending entry has a flagged record,
  the same holds after any further callback, provided that a dispatch finds no record
  in two pending entries.
\<close>

theorem insertion_clears_processing_flag:
  "pushes_unflagged (push opts e jid payload due cb) \<and>
   pushes_unflagged (init opts readdir fromDisk) \<and>
   pushes_unflagged (worker opts e j) \<and>
   pushes_unflagged (retry opts e j cb) \<and>
   pushes_unflagged (dispatch opts e j) \<and>
   (a \<noteq> Process \<and> processing (heap (step opts e a s) r) \<longrightarrow> processing (heap s r)) \<and>
   (processing (heap (process opts t s) r) \<and> \<not> processing (heap s r) \<longrightarrow>
      started (process opts t s) = started s @ [r]) \<and>
   (pending_processing s = [] \<and> (a = Process \<longrightarrow> distinct (map fst (tasks s))) \<longrightarrow>
      pending_processing (step opts e a s) = [])"
proof (intro conjI impI)
  show "pushes_unflagged (push opts e jid payload due cb)" by (rule push_unflagged)
  show "pushes_unflagged (init opts readdir fromDisk)" by (rule init_unflagged)
  show "pushes_unflagged (worker opts e j)" by (rule worker_unflagged)
  show "pushes_unflagged (retry opts e j cb)" by (rule retry_unflagged)
  show "pushes_unflagged (dispatch opts e j)" by (rule dispatch_unflagged)
next
  assume "a \<noteq> Process \<and> processing (heap (step opts e a s) r)"
  then show "processing (heap s r)" using step_flag by blast
next
  assume "processing (heap (process opts t s) r) \<and> \<not> processing (heap s r)"
  then show "started (process opts t s) = started s @ [r]" using process_flag by blast
next
  assume "pending_processing s = [] \<and> (a = Process \<longrightarrow> distinct (map fst (tasks s)))"
  then show "pending_processing (step opts e a s) = []" using step_pending by blast
qed

theorem insertion_clears_processing_flag_witness:
  "pushed (push sample_options (sample_env 100 None) ''a1'' ''payload'' None True) =
     [(new_Job ''a1'' ''payload'' 10100 ''/var/q'', 10100)] \<and>
   pushed (retry sample_options (sample_env 100 None) (sample_job 50 1 True) True) =
     [(sample_job 15050 1 False, 15050)] \<and>
   pending_processing (idle_scheduler\<lparr>tasks := [(3, 5)]\<rparr>) = [] \<and>
   pending_processing
     (step sample_options (sample_env 100 None) Process
        (idle_scheduler\<lparr>tasks := [(3, 5)]\<rparr>)) = [] \<and>
   processing (heap (process sample_options 100 (idle_scheduler\<lparr>tasks := [(3, 5)]\<rparr>)) 3) \<and>
   started (process sample_options 100 (idle_scheduler\<lparr>tasks := [(3, 5)]\<rparr>)) = [3] \<and>
   processing
     (heap (step sample_options (failing_disk 100 (JsError ''disk full'')) (Retry 3 True)
        (idle_scheduler\<lparr>heap := (\<lambda>r. sample_job 50 1 True)\<rparr>)) 3) \<and>
   processing (heap (idle_scheduler\<lparr>heap := (\<lambda>r. sample_job 50 1 True)\<rparr>) 3)"
proof -
  have inv: "pending_processing (idle_scheduler\<lparr>tasks := [(3, 5)]\<rparr>) = []"
    by (simp add: pending_processing_def idle_scheduler_def new_Job_def)
  have d: "distinct (map fst (tasks (idle_scheduler\<lparr>tasks := [(3, 5)]\<rparr>)))"
    by simp
  have f: "processing (heap (process sample_options 100 (idle_scheduler\<lparr>tasks := [(3, 5)]\<rparr>)) 3) \<and>
      \<not> processing (heap (idle_scheduler\<lparr>tasks := [(3, 5)]\<rparr>) 3)"
    by (simp add: process_def worker_job_def idle_scheduler_def sample_options_eq new_Job_def
        Let_def)
  have p: "pushed (push sample_options (sample_env 100 None) ''a1'' ''payload'' None True) =
      [(new_Job ''a1'' ''payload'' 10100 ''/var/q'', 10100)] \<and>
    pushed (retry sample_options (sample_env 100 None) (sample_job 50 1 True) True) =
      [(sample_job 15050 1 False, 15050)]"
    by (simp add: push_trace push_due_def retry_def persist_def enqueue_def enqueue_job_def
        retry_job_def callback_def sample_env_def sample_job_def sample_options_eq
        sample_paths Let_def)
  have st: "started idle_scheduler = [] \<and> now (sample_env 100 None) = 100"
    by (simp add: idle_scheduler_def sample_env_def)
  have g: "Retry 3 True \<noteq> Process \<and>
      processing
        (heap (step sample_options (failing_disk 100 (JsError ''disk full'')) (Retry 3 True)
           (idle_scheduler\<lparr>heap := (\<lambda>r. sample_job 50 1 True)\<rparr>)) 3)"
    by (simp add: absorbs_def retry_def persist_def callback_def retry_job_def failing_disk_def
        sample_job_def Let_def)
  show ?thesis
    using insertion_clears_processing_flag
      [of sample_options "sample_env 100 None" "''a1''" "''payload''" None True
          "Inr []" sample_disk "sample_job 50 1 True" Process
          "idle_scheduler\<lparr>tasks := [(3, 5)]\<rparr>" 3 100]
      insertion_clears_processing_flag
        [of sample_options "failing_disk 100 (JsError ''disk full'')" "''a1''"
            "''payload''" None True "Inr []" sample_disk "sample_job 50 1 True" "Retry 3 True"
            "idle_scheduler\<lparr>heap := (\<lambda>r. sample_job 50 1 True)\<rparr>" 3 100]
      inv d f p st g
    by simp
qed

text \<open>
  Claim C10 as stated fails, because the queue may hold the same record twice. With one
  execution slot: a pushed record is dispatched before it is due and waits in its
  backoff; the caller retries it meanwhile (its flag is set, so the retry goes ahead
  and pushes it); the backoff timer pushes it again; the next dispatch takes the first
  entry and sets the flag of the record that the second entry still holds.
\<close>

theorem pending_record_with_processing_flag:
  "tasks (run (sample_options\<lparr>concurrency := 1\<rparr>)
     [(sample_env 100 None, Push 0 ''a1'' ''payload'' None True),
      (sample_env 100 None, Process),
      (sample_env 500 None, Retry 0 True),
      (sample_env 500 None, Process),
      (sample_env 1100 None, Timer 0)] idle_scheduler) = [(0, 25100), (0, 25100)] \<and>
   pending_processing (run (sample_options\<lparr>concurrency := 1\<rparr>)
     [(sample_env 100 None, Push 0 ''a1'' ''payload'' None True),
      (sample_env 100 None, Process),
      (sample_env 500 None, Retry 0 True),
      (sample_env 500 None, Process),
      (sample_env 1100 None, Timer 0),
      (sample_env 1100 None, Process)] idle_scheduler) = [(0, 25100)]"
  by (simp add: absorbs_def process_def worker_job_def push_def retry_def persist_def
      early_timer_def enqueue_def enqueue_job_def retry_job_def callback_def new_Job_def
      push_due_def queue_push_def pending_processing_def idle_scheduler_def sample_env_def
      sample_options_eq sample_paths Let_def)

end
